theory Spec2Isabelle
  imports Main "HOL-Library.AList"
begin

section \<open>The signaling coordinator of src/server/trpc/router (room router)\<close>

text \<open>
  The router keeps all its state in \<^verbatim>\<open>const rooms = new Map<string, Room>()\<close>. A room
  holds \<^verbatim>\<open>participants\<close>, a plain JavaScript object used as a dictionary from peer id to
  a mailbox; a mailbox holds three more plain objects (\<^verbatim>\<open>offers\<close>, \<^verbatim>\<open>answers\<close>,
  \<^verbatim>\<open>iceCandidates\<close>) keyed by the target peer id. Peer ids, room ids and payloads are
  arbitrary strings (\<^verbatim>\<open>z.string()\<close>).
\<close>

subsection \<open>Plain objects used as dictionaries\<close>

text \<open>
  An object is modelled by its own properties, an association list in insertion order.
  Assignment \<^verbatim>\<open>obj[k] = v\<close> is \<^const>\<open>AList.update\<close>: it replaces the value in place
  when \<open>k\<close> is an own key and appends the pair otherwise.

  Every object of the router is created by an object literal, so its prototype is
  \<^verbatim>\<open>Object.prototype\<close>, and a read \<^verbatim>\<open>obj[k]\<close> of a key that is not an own property
  falls through to the members of \<^verbatim>\<open>Object.prototype\<close>. A read therefore has three
  outcomes: an own value, an inherited built-in member, or \<^verbatim>\<open>undefined\<close>.
\<close>

type_synonym 'a obj = "(string \<times> 'a) list"

datatype 'a js_lookup = Undefined | Own 'a | Inherited string

definition object_prototype_keys :: "string list" where
  "object_prototype_keys =
     [''constructor'', ''__defineGetter__'', ''__defineSetter__'', ''hasOwnProperty'',
      ''__lookupGetter__'', ''__lookupSetter__'', ''isPrototypeOf'',
      ''propertyIsEnumerable'', ''toString'', ''valueOf'', ''__proto__'',
      ''toLocaleString'']"

definition js_get :: "'a obj \<Rightarrow> string \<Rightarrow> 'a js_lookup" where
  "js_get obj k =
     (case map_of obj k of
        Some v \<Rightarrow> Own v
      | None \<Rightarrow> if k \<in> set object_prototype_keys then Inherited k else Undefined)"

text \<open>
  The \<^verbatim>\<open>.length\<close> of an inherited member: the declared arity of a built-in function;
  \<^verbatim>\<open>__proto__\<close> reads as \<^verbatim>\<open>Object.prototype\<close> itself, which has no \<^verbatim>\<open>length\<close>
  (\<^verbatim>\<open>undefined > 0\<close> is false, as is \<open>0 > 0\<close>).
\<close>

definition inherited_length :: "string \<Rightarrow> nat" where
  "inherited_length k =
     (if k \<in> set [''__defineGetter__'', ''__defineSetter__''] then 2
      else if k \<in> set [''constructor'', ''hasOwnProperty'', ''__lookupGetter__'',
                         ''__lookupSetter__'', ''isPrototypeOf'', ''propertyIsEnumerable'']
      then 1 else 0)"

text \<open>
  Truthiness, as \<^verbatim>\<open>if (x)\<close> and \<^verbatim>\<open>!x\<close> test it. Objects, arrays (also the empty
  array) and functions are truthy, \<^verbatim>\<open>undefined\<close> is falsy, and a string is truthy
  exactly when it is not empty.
\<close>

fun truthy_object :: "'a js_lookup \<Rightarrow> bool" where
  "truthy_object Undefined = False"
| "truthy_object (Own v) = True"
| "truthy_object (Inherited k) = True"

fun truthy_string :: "string js_lookup \<Rightarrow> bool" where
  "truthy_string Undefined = False"
| "truthy_string (Own s) = (s \<noteq> [])"
| "truthy_string (Inherited k) = True"

fun js_length :: "'a list js_lookup \<Rightarrow> nat" where
  "js_length Undefined = 0"
| "js_length (Own xs) = length xs"
| "js_length (Inherited k) = inherited_length k"

text \<open>
  Assigning a string: \<^verbatim>\<open>obj["__proto__"] = s\<close> runs the inherited setter, which
  ignores a value that is neither an object nor null; every other key becomes (or
  stays) an own property.
\<close>

definition js_set_string :: "string obj \<Rightarrow> string \<Rightarrow> string \<Rightarrow> string obj" where
  "js_set_string obj k v = (if k = ''__proto__'' then obj else AList.update k v obj)"

text \<open>
  \<^verbatim>\<open>Object.keys\<close> and \<^verbatim>\<open>Object.entries\<close> enumerate the own properties: first the keys
  that are array indices (canonical decimal numerals below \<open>2^32 - 1\<close>) in ascending
  numeric order, then all other keys in insertion order.
\<close>

definition is_digit :: "char \<Rightarrow> bool" where
  "is_digit c = (c \<in> set ''0123456789'')"

definition decimal_value :: "string \<Rightarrow> int" where
  "decimal_value s = foldl (\<lambda>n c. 10 * n + (of_char c - 48)) 0 s"

definition is_array_index :: "string \<Rightarrow> bool" where
  "is_array_index s =
     (case s of
        [] \<Rightarrow> False
      | c # cs \<Rightarrow> list_all is_digit s \<and> (if c = CHR ''0'' then cs = [] else True)
                  \<and> decimal_value s < 4294967295)"

definition object_entries :: "'a obj \<Rightarrow> (string \<times> 'a) list" where
  "object_entries obj =
     sort_key (\<lambda>p. decimal_value (fst p)) (filter (\<lambda>p. is_array_index (fst p)) obj)
     @ filter (\<lambda>p. \<not> is_array_index (fst p)) obj"

definition object_keys :: "'a obj \<Rightarrow> string list" where
  "object_keys obj = map fst (object_entries obj)"

subsection \<open>The data model\<close>

text \<open>
  The interface \<^verbatim>\<open>Room\<close> and the type of its participants. The field \<^verbatim>\<open>id\<close> of a room
  is called \<open>room_id\<close> here, \<open>id\<close> being the identity function of HOL.
\<close>

record mailbox =
  offers :: "string obj"
  answers :: "string obj"
  iceCandidates :: "string list obj"

record room =
  room_id :: string
  participants :: "mailbox obj"

text \<open>
  The \<^verbatim>\<open>Map\<close> of rooms: \<^verbatim>\<open>rooms.get\<close> is \<^const>\<open>map_of\<close> and \<^verbatim>\<open>rooms.set\<close> is
  \<^const>\<open>AList.update\<close>. A handler that mutates a room object in place is modelled by
  writing the changed room back under its key.
\<close>

type_synonym rooms = "(string \<times> room) list"

text \<open>
  The handlers throw \<^verbatim>\<open>new Error(`Room ... not found`)\<close> and
  \<^verbatim>\<open>new Error(`Peer ... not found in room ...`)\<close>; a read or call through
  \<^verbatim>\<open>undefined\<close> raises the runtime's \<^verbatim>\<open>TypeError\<close>.
\<close>

datatype error = NotFound string | PeerNotFound string string | TypeError

definition empty_mailbox :: mailbox where
  "empty_mailbox = \<lparr>offers = [], answers = [], iceCandidates = []\<rparr>"

subsection \<open>createRoom and joinRoom\<close>

text \<open>The identifier drawn by \<^verbatim>\<open>uuidv4()\<close> is a parameter of the model.\<close>

definition createRoom :: "string \<Rightarrow> rooms \<Rightarrow> string \<times> rooms" where
  "createRoom roomId rooms =
     (roomId, AList.update roomId \<lparr>room_id = roomId, participants = []\<rparr> rooms)"

definition joinRoom :: "string \<Rightarrow> string \<Rightarrow> rooms \<Rightarrow> (error + string list) \<times> rooms" where
  "joinRoom roomId peerId rooms =
     (case map_of rooms roomId of
        None \<Rightarrow> (Inl (NotFound roomId), rooms)
      | Some room \<Rightarrow>
          let ps = (if \<not> truthy_object (js_get (participants room) peerId)
                    then AList.update peerId empty_mailbox (participants room)
                    else participants room);
              otherPeers = filter (\<lambda>id. id \<noteq> peerId) (object_keys ps)
          in (Inr otherPeers, AList.update roomId (room\<lparr>participants := ps\<rparr>) rooms))"

subsection \<open>The three sends\<close>

text \<open>
  After the two guards, \<^verbatim>\<open>room.participants[fromPeerId].offers[toPeerId] = offer\<close>
  reads the field \<^verbatim>\<open>offers\<close> of whatever the lookup returned. An inherited member
  passes the guard (it is truthy) but has no such field, and assigning into
  \<^verbatim>\<open>undefined\<close> throws.
\<close>

definition sendOffer ::
  "string \<Rightarrow> string \<Rightarrow> string \<Rightarrow> string \<Rightarrow> rooms \<Rightarrow> (error + bool) \<times> rooms" where
  "sendOffer roomId fromPeerId toPeerId offer rooms =
     (case map_of rooms roomId of
        None \<Rightarrow> (Inl (NotFound roomId), rooms)
      | Some room \<Rightarrow>
          if \<not> truthy_object (js_get (participants room) fromPeerId)
          then (Inl (PeerNotFound fromPeerId roomId), rooms)
          else (case js_get (participants room) fromPeerId of
                  Own mb \<Rightarrow>
                    let mb' = mb\<lparr>offers := js_set_string (offers mb) toPeerId offer\<rparr>;
                        ps = AList.update fromPeerId mb' (participants room)
                    in (Inr True, AList.update roomId (room\<lparr>participants := ps\<rparr>) rooms)
                | _ \<Rightarrow> (Inl TypeError, rooms)))"

definition sendAnswer ::
  "string \<Rightarrow> string \<Rightarrow> string \<Rightarrow> string \<Rightarrow> rooms \<Rightarrow> (error + bool) \<times> rooms" where
  "sendAnswer roomId fromPeerId toPeerId answer rooms =
     (case map_of rooms roomId of
        None \<Rightarrow> (Inl (NotFound roomId), rooms)
      | Some room \<Rightarrow>
          if \<not> truthy_object (js_get (participants room) fromPeerId)
          then (Inl (PeerNotFound fromPeerId roomId), rooms)
          else (case js_get (participants room) fromPeerId of
                  Own mb \<Rightarrow>
                    let mb' = mb\<lparr>answers := js_set_string (answers mb) toPeerId answer\<rparr>;
                        ps = AList.update fromPeerId mb' (participants room)
                    in (Inr True, AList.update roomId (room\<lparr>participants := ps\<rparr>) rooms)
                | _ \<Rightarrow> (Inl TypeError, rooms)))"

text \<open>
  \<^verbatim>\<open>sendIceCandidate\<close> first initialises the queue when the lookup is falsy, then
  calls \<^verbatim>\<open>.push\<close> on the result of a second lookup. An inherited member is truthy,
  so no queue is initialised, and it has no \<^verbatim>\<open>push\<close>: the call throws. The state
  returned with the error carries whatever was written before the throw.
\<close>

definition sendIceCandidate ::
  "string \<Rightarrow> string \<Rightarrow> string \<Rightarrow> string \<Rightarrow> rooms \<Rightarrow> (error + bool) \<times> rooms" where
  "sendIceCandidate roomId fromPeerId toPeerId candidate rooms =
     (case map_of rooms roomId of
        None \<Rightarrow> (Inl (NotFound roomId), rooms)
      | Some room \<Rightarrow>
          if \<not> truthy_object (js_get (participants room) fromPeerId)
          then (Inl (PeerNotFound fromPeerId roomId), rooms)
          else (case js_get (participants room) fromPeerId of
                  Own mb \<Rightarrow>
                    let q = (if \<not> truthy_object (js_get (iceCandidates mb) toPeerId)
                             then AList.update toPeerId [] (iceCandidates mb)
                             else iceCandidates mb);
                        write = (\<lambda>q'. AList.update roomId
                                   (room\<lparr>participants :=
                                      AList.update fromPeerId (mb\<lparr>iceCandidates := q'\<rparr>)
                                        (participants room)\<rparr>) rooms)
                    in (case js_get q toPeerId of
                          Own cs \<Rightarrow>
                            (Inr True, write (AList.update toPeerId (cs @ [candidate]) q))
                        | _ \<Rightarrow> (Inl TypeError, write q))
                | _ \<Rightarrow> (Inl TypeError, rooms)))"

subsection \<open>The three reads\<close>

text \<open>
  \<^verbatim>\<open>Object.entries(room.participants).forEach\<close> with a \<^verbatim>\<open>push\<close> into the result
  array is a loop over the entries that threads the result. The value pushed is the
  result of the lookup itself, so it is an own string or an inherited member.
\<close>

fun collect_offers ::
  "string \<Rightarrow> (string \<times> mailbox) list \<Rightarrow> (string \<times> string js_lookup) list
    \<Rightarrow> (string \<times> string js_lookup) list" where
  "collect_offers peerId [] acc = acc"
| "collect_offers peerId ((fromPeerId, data) # es) acc =
     collect_offers peerId es
       (if fromPeerId \<noteq> peerId \<and> truthy_string (js_get (offers data) peerId)
        then acc @ [(fromPeerId, js_get (offers data) peerId)] else acc)"

definition getOffers ::
  "string \<Rightarrow> string \<Rightarrow> rooms \<Rightarrow> (error + (string \<times> string js_lookup) list) \<times> rooms" where
  "getOffers roomId peerId rooms =
     (case map_of rooms roomId of
        None \<Rightarrow> (Inl (NotFound roomId), rooms)
      | Some room \<Rightarrow>
          (Inr (collect_offers peerId (object_entries (participants room)) []), rooms))"

fun collect_answers ::
  "string \<Rightarrow> (string \<times> mailbox) list \<Rightarrow> (string \<times> string js_lookup) list
    \<Rightarrow> (string \<times> string js_lookup) list" where
  "collect_answers peerId [] acc = acc"
| "collect_answers peerId ((fromPeerId, data) # es) acc =
     collect_answers peerId es
       (if fromPeerId \<noteq> peerId \<and> truthy_string (js_get (answers data) peerId)
        then acc @ [(fromPeerId, js_get (answers data) peerId)] else acc)"

definition getAnswers ::
  "string \<Rightarrow> string \<Rightarrow> rooms \<Rightarrow> (error + (string \<times> string js_lookup) list) \<times> rooms" where
  "getAnswers roomId peerId rooms =
     (case map_of rooms roomId of
        None \<Rightarrow> (Inl (NotFound roomId), rooms)
      | Some room \<Rightarrow>
          (Inr (collect_answers peerId (object_entries (participants room)) []), rooms))"

text \<open>
  \<^verbatim>\<open>getIceCandidates\<close> also assigns \<^verbatim>\<open>data.iceCandidates[peerId] = []\<close> inside the
  loop. \<open>data\<close> is the participant's own mailbox object, so the loop threads the
  participants along with the result and writes the drained mailbox back under the
  sender's key.
\<close>

fun drain_candidates ::
  "string \<Rightarrow> (string \<times> mailbox) list \<Rightarrow> mailbox obj \<times> (string \<times> string list js_lookup) list
    \<Rightarrow> mailbox obj \<times> (string \<times> string list js_lookup) list" where
  "drain_candidates peerId [] st = st"
| "drain_candidates peerId ((fromPeerId, data) # es) (ps, acc) =
     drain_candidates peerId es
       (if fromPeerId \<noteq> peerId \<and> truthy_object (js_get (iceCandidates data) peerId)
           \<and> js_length (js_get (iceCandidates data) peerId) > 0
        then (AList.update fromPeerId
                (data\<lparr>iceCandidates := AList.update peerId [] (iceCandidates data)\<rparr>) ps,
              acc @ [(fromPeerId, js_get (iceCandidates data) peerId)])
        else (ps, acc))"

definition getIceCandidates ::
  "string \<Rightarrow> string \<Rightarrow> rooms
    \<Rightarrow> (error + (string \<times> string list js_lookup) list) \<times> rooms" where
  "getIceCandidates roomId peerId rooms =
     (case map_of rooms roomId of
        None \<Rightarrow> (Inl (NotFound roomId), rooms)
      | Some room \<Rightarrow>
          let (ps, iceCandidates) =
                drain_candidates peerId (object_entries (participants room))
                  (participants room, [])
          in (Inr iceCandidates, AList.update roomId (room\<lparr>participants := ps\<rparr>) rooms))"

subsection \<open>The router: a request is one call of one procedure\<close>

datatype request =
    CreateRoom string
  | JoinRoom string string
  | SendOffer string string string string
  | SendAnswer string string string string
  | SendIceCandidate string string string string
  | GetOffers string string
  | GetAnswers string string
  | GetIceCandidates string string

text \<open>The registry after a request has been served (whether it returned or threw).\<close>

fun apply_request :: "request \<Rightarrow> rooms \<Rightarrow> rooms" where
  "apply_request (CreateRoom roomId) rooms = snd (createRoom roomId rooms)"
| "apply_request (JoinRoom roomId peerId) rooms = snd (joinRoom roomId peerId rooms)"
| "apply_request (SendOffer roomId fromPeerId toPeerId offer) rooms =
     snd (sendOffer roomId fromPeerId toPeerId offer rooms)"
| "apply_request (SendAnswer roomId fromPeerId toPeerId answer) rooms =
     snd (sendAnswer roomId fromPeerId toPeerId answer rooms)"
| "apply_request (SendIceCandidate roomId fromPeerId toPeerId candidate) rooms =
     snd (sendIceCandidate roomId fromPeerId toPeerId candidate rooms)"
| "apply_request (GetOffers roomId peerId) rooms = snd (getOffers roomId peerId rooms)"
| "apply_request (GetAnswers roomId peerId) rooms = snd (getAnswers roomId peerId rooms)"
| "apply_request (GetIceCandidates roomId peerId) rooms =
     snd (getIceCandidates roomId peerId rooms)"

definition run :: "request list \<Rightarrow> rooms \<Rightarrow> rooms" where
  "run reqs rooms = fold apply_request reqs rooms"

subsection \<open>Notions used to state the properties\<close>

text \<open>The mailbox a peer owns in a room, if it has one (an own property of \<^verbatim>\<open>participants\<close>).\<close>

definition mailbox_of :: "rooms \<Rightarrow> string \<Rightarrow> string \<Rightarrow> mailbox option" where
  "mailbox_of rooms roomId peerId =
     (case map_of rooms roomId of
        None \<Rightarrow> None
      | Some room \<Rightarrow> map_of (participants room) peerId)"

text \<open>The candidates queued from one peer to another and not yet drained.\<close>

definition pending_candidates :: "rooms \<Rightarrow> string \<Rightarrow> string \<Rightarrow> string \<Rightarrow> string list" where
  "pending_candidates rooms roomId fromPeerId toPeerId =
     (case mailbox_of rooms roomId fromPeerId of
        None \<Rightarrow> []
      | Some mb \<Rightarrow> (case map_of (iceCandidates mb) toPeerId of None \<Rightarrow> [] | Some cs \<Rightarrow> cs))"

text \<open>The entries of a read's result that come from one sender.\<close>

definition entries_from :: "string \<Rightarrow> (string \<times> 'a) list \<Rightarrow> (string \<times> 'a) list" where
  "entries_from fromPeerId res = filter (\<lambda>e. fst e = fromPeerId) res"

text \<open>
  No object has two own properties of the same name. The association lists of the
  participants must therefore have distinct keys. A registry with this property is
  called well-formed; every registry the router can reach from the empty one is
  (\<open>wf_rooms_reachable\<close> below).
\<close>

definition wf_rooms :: "rooms \<Rightarrow> bool" where
  "wf_rooms rooms = list_all (\<lambda>p. distinct (map fst (participants (snd p)))) rooms"

text \<open>
  A call \<open>f\<close> is confined to room \<open>R1\<close> when it leaves every other room of the registry
  as it was, and when its result and what it makes of \<open>R1\<close> are the same in any two
  registries that agree on \<open>R1\<close>, whatever they hold elsewhere.
\<close>

definition confined_to :: "string \<Rightarrow> (rooms \<Rightarrow> 'a \<times> rooms) \<Rightarrow> bool" where
  "confined_to R1 f =
     ((\<forall>R2 s. R2 \<noteq> R1 \<longrightarrow> map_of (snd (f s)) R2 = map_of s R2)
      \<and> (\<forall>s s'. map_of s' R1 = map_of s R1 \<longrightarrow>
             fst (f s') = fst (f s) \<and> map_of (snd (f s')) R1 = map_of (snd (f s)) R1))"

text \<open>A small registry: one room \<open>r\<close>, joined by \<open>a\<close> and then by \<open>b\<close>.\<close>

definition two_peers :: rooms where
  "two_peers = run [CreateRoom ''r'', JoinRoom ''r'' ''a'', JoinRoom ''r'' ''b''] []"

text \<open>The same room after \<open>a\<close> has sent an offer and a candidate to itself.\<close>

definition self_addressed :: rooms where
  "self_addressed =
     run [SendOffer ''r'' ''a'' ''a'' ''o1'', SendIceCandidate ''r'' ''a'' ''a'' ''c1''] two_peers"

text \<open>Two rooms, each joined by a peer called \<open>a\<close>; room \<open>r2\<close> also holds an offer.\<close>

definition two_rooms :: rooms where
  "two_rooms =
     run [CreateRoom ''r1'', CreateRoom ''r2'', JoinRoom ''r1'' ''a'', JoinRoom ''r2'' ''a'',
          SendOffer ''r2'' ''a'' ''b'' ''o2''] []"

section \<open>Properties of the model\<close>

subsection \<open>Enumeration of own properties and the three loops\<close>

lemma set_object_entries: "set (object_entries obj) = set obj"
  by (auto simp: object_entries_def)

lemma distinct_object_entries:
  "distinct (map fst obj) \<Longrightarrow> distinct (map fst (object_entries obj))"
  by (auto simp: object_entries_def distinct_map inj_on_def)

lemma map_of_object_entries:
  "distinct (map fst obj) \<Longrightarrow> map_of (object_entries obj) = map_of obj"
  by (rule map_of_inject_set[THEN iffD2]) (simp_all add: distinct_object_entries set_object_entries)

lemma list_all_update:
  "list_all P al \<Longrightarrow> P (k, v) \<Longrightarrow> list_all P (AList.update k v al)"
  by (induction al) auto

lemma drain_result:
  "snd (drain_candidates p es (ps, acc)) =
     acc @ map (\<lambda>e. (fst e, js_get (iceCandidates (snd e)) p))
             (filter (\<lambda>e. fst e \<noteq> p \<and> truthy_object (js_get (iceCandidates (snd e)) p)
                           \<and> 0 < js_length (js_get (iceCandidates (snd e)) p)) es)"
  by (induction es arbitrary: ps acc) auto

lemma drain_keys:
  "fst ` set es \<subseteq> fst ` set ps \<Longrightarrow> map fst (fst (drain_candidates p es (ps, acc))) = map fst ps"
proof (induction es arbitrary: ps acc)
  case Nil
  then show ?case by simp
next
  case (Cons e es)
  obtain k d where e: "e = (k, d)" by (cases e)
  from Cons.prems e have k: "k \<in> fst ` set ps" and rest: "fst ` set es \<subseteq> fst ` set ps"
    by auto
  have keys: "map fst (AList.update k v ps) = map fst ps" for v
    using k by (simp add: update_keys)
  have rest': "fst ` set es \<subseteq> fst ` set (AList.update k v ps)" for v
    using rest by (simp add: dom_update) blast
  show ?case
    using Cons.IH[OF rest] Cons.IH[OF rest'] keys by (simp add: e)
qed

lemma drain_map_of:
  "distinct (map fst es) \<Longrightarrow>
   map_of (fst (drain_candidates p es (ps, acc))) k =
     (case map_of es k of
        None \<Rightarrow> map_of ps k
      | Some d \<Rightarrow>
          if k \<noteq> p \<and> truthy_object (js_get (iceCandidates d) p)
             \<and> 0 < js_length (js_get (iceCandidates d) p)
          then Some (d\<lparr>iceCandidates := AList.update p [] (iceCandidates d)\<rparr>)
          else map_of ps k)"
proof (induction es arbitrary: ps acc)
  case Nil
  then show ?case by simp
next
  case (Cons e es)
  obtain k' d' where e: "e = (k', d')" by (cases e)
  from Cons.prems e have fresh: "map_of es k' = None" and dist: "distinct (map fst es)"
    by (auto simp: map_of_eq_None_iff)
  show ?case
    using Cons.IH[OF dist] fresh by (auto simp: e update_conv' split: option.splits)
qed

subsection \<open>Lookups, registry updates and the sends\<close>

lemma filter_key_absent: "k \<notin> fst ` set es \<Longrightarrow> [e\<leftarrow>es. fst e = k] = []"
  by (induction es) auto

lemma filter_key_unique:
  "distinct (map fst es) \<Longrightarrow> (k, v) \<in> set es \<Longrightarrow> [e\<leftarrow>es. fst e = k] = [(k, v)]"
  by (induction es) (auto simp: filter_key_absent rev_image_eqI)

lemma collect_offers_eq:
  "collect_offers p es acc =
     acc @ map (\<lambda>e. (fst e, js_get (offers (snd e)) p))
             (filter (\<lambda>e. fst e \<noteq> p \<and> truthy_string (js_get (offers (snd e)) p)) es)"
  by (induction es arbitrary: acc) auto

lemma collect_answers_eq:
  "collect_answers p es acc =
     acc @ map (\<lambda>e. (fst e, js_get (answers (snd e)) p))
             (filter (\<lambda>e. fst e \<noteq> p \<and> truthy_string (js_get (answers (snd e)) p)) es)"
  by (induction es arbitrary: acc) auto

lemma entries_from_map_filter:
  assumes "distinct (map fst es)" and "(A, d) \<in> set es"
  shows "entries_from A (map (\<lambda>e. (fst e, g (snd e))) (filter (\<lambda>e. c (fst e) (snd e)) es)) =
           (if c A d then [(A, g d)] else [])"
proof -
  have "entries_from A (map (\<lambda>e. (fst e, g (snd e))) (filter (\<lambda>e. c (fst e) (snd e)) es)) =
          map (\<lambda>e. (fst e, g (snd e))) (filter (\<lambda>e. c (fst e) (snd e)) [e\<leftarrow>es. fst e = A])"
    by (simp add: entries_from_def filter_map comp_def conj_commute)
  also have "[e\<leftarrow>es. fst e = A] = [(A, d)]"
    using assms by (rule filter_key_unique)
  finally show ?thesis by simp
qed

lemma wf_rooms_lookup:
  "wf_rooms s \<Longrightarrow> map_of s R = Some room \<Longrightarrow> distinct (map fst (participants room))"
  by (auto simp: wf_rooms_def list_all_iff dest!: map_of_SomeD)

lemma wf_rooms_update:
  "wf_rooms s \<Longrightarrow> distinct (map fst (participants room')) \<Longrightarrow> wf_rooms (AList.update R room' s)"
  by (simp add: wf_rooms_def list_all_update)

lemma mailbox_of_update:
  "mailbox_of (AList.update R room' s) R' p =
     (if R' = R then map_of (participants room') p else mailbox_of s R' p)"
  by (simp add: mailbox_of_def update_conv')

lemma mailbox_ofD:
  "mailbox_of s R p = Some mb \<Longrightarrow> \<exists>room. map_of s R = Some room \<and> map_of (participants room) p = Some mb"
  by (auto simp: mailbox_of_def split: option.splits)

lemma js_get_own [simp]: "map_of obj k = Some v \<Longrightarrow> js_get obj k = Own v"
  by (simp add: js_get_def)

lemma js_get_update_same [simp]: "js_get (AList.update k v obj) k = Own v"
  by (simp add: js_get_def update_conv')

lemma js_get_update_other [simp]: "k' \<noteq> k \<Longrightarrow> js_get (AList.update k v obj) k' = js_get obj k'"
  by (simp add: js_get_def update_conv')

lemma sendOffer_joined:
  assumes "mailbox_of s R A = Some mb"
  shows "fst (sendOffer R A B x s) = Inr True"
    and "mailbox_of (snd (sendOffer R A B x s)) R =
           (mailbox_of s R)(A \<mapsto> mb\<lparr>offers := js_set_string (offers mb) B x\<rparr>)"
    and "wf_rooms s \<Longrightarrow> wf_rooms (snd (sendOffer R A B x s))"
  using assms
  by (auto simp: sendOffer_def mailbox_of_def update_conv' fun_eq_iff Let_def
      intro!: wf_rooms_update distinct_update dest: wf_rooms_lookup split: option.splits)

lemma sendAnswer_joined:
  assumes "mailbox_of s R A = Some mb"
  shows "fst (sendAnswer R A B x s) = Inr True"
    and "mailbox_of (snd (sendAnswer R A B x s)) R =
           (mailbox_of s R)(A \<mapsto> mb\<lparr>answers := js_set_string (answers mb) B x\<rparr>)"
    and "wf_rooms s \<Longrightarrow> wf_rooms (snd (sendAnswer R A B x s))"
  using assms
  by (auto simp: sendAnswer_def mailbox_of_def update_conv' fun_eq_iff Let_def
      intro!: wf_rooms_update distinct_update dest: wf_rooms_lookup split: option.splits)

subsection \<open>The reads, sender by sender\<close>

lemma sendIceCandidate_joined:
  assumes "mailbox_of s R A = Some mb"
    and "map_of (iceCandidates mb) B \<noteq> None \<or> B \<notin> set object_prototype_keys"
  shows "fst (sendIceCandidate R A B x s) = Inr True"
    and "mailbox_of (snd (sendIceCandidate R A B x s)) R =
           (mailbox_of s R)(A \<mapsto> mb\<lparr>iceCandidates :=
              AList.update B (pending_candidates s R A B @ [x]) (iceCandidates mb)\<rparr>)"
    and "wf_rooms s \<Longrightarrow> wf_rooms (snd (sendIceCandidate R A B x s))"
  using assms
  by (auto simp: sendIceCandidate_def mailbox_of_def pending_candidates_def update_conv' fun_eq_iff
      Let_def js_get_def
      intro!: wf_rooms_update distinct_update dest: wf_rooms_lookup split: option.splits)

lemma sendIceCandidate_success_iff:
  "fst (sendIceCandidate R A B x s) = Inr True \<longleftrightarrow>
     (\<exists>mb. mailbox_of s R A = Some mb
        \<and> (map_of (iceCandidates mb) B \<noteq> None \<or> B \<notin> set object_prototype_keys))"
  by (auto simp: sendIceCandidate_def mailbox_of_def Let_def js_get_def update_conv'
      split: option.splits js_lookup.splits if_splits)

lemma sendIceCandidate_failed_unchanged:
  "fst (sendIceCandidate R A B x s) \<noteq> Inr True \<Longrightarrow> snd (sendIceCandidate R A B x s) = s"
  by (auto simp: sendIceCandidate_def Let_def js_get_def update_conv' update_triv
      split: option.splits js_lookup.splits if_splits)

lemma getOffers_room:
  "map_of s R = Some room \<Longrightarrow>
   getOffers R B s =
     (Inr (map (\<lambda>e. (fst e, js_get (offers (snd e)) B))
             (filter (\<lambda>e. fst e \<noteq> B \<and> truthy_string (js_get (offers (snd e)) B))
                (object_entries (participants room)))), s)"
  by (simp add: getOffers_def collect_offers_eq)

lemma getAnswers_room:
  "map_of s R = Some room \<Longrightarrow>
   getAnswers R B s =
     (Inr (map (\<lambda>e. (fst e, js_get (answers (snd e)) B))
             (filter (\<lambda>e. fst e \<noteq> B \<and> truthy_string (js_get (answers (snd e)) B))
                (object_entries (participants room)))), s)"
  by (simp add: getAnswers_def collect_answers_eq)

lemma getOffers_from:
  assumes "wf_rooms s" and "mailbox_of s R A = Some mb"
  shows "\<exists>res. getOffers R B s = (Inr res, s) \<and>
           entries_from A res =
             (if A \<noteq> B \<and> truthy_string (js_get (offers mb) B)
              then [(A, js_get (offers mb) B)] else [])"
proof -
  from assms(2) obtain room where room: "map_of s R = Some room"
    and mb: "map_of (participants room) A = Some mb"
    by (auto dest: mailbox_ofD)
  have d: "distinct (map fst (object_entries (participants room)))"
    using assms(1) room by (simp add: distinct_object_entries wf_rooms_lookup)
  have m: "(A, mb) \<in> set (object_entries (participants room))"
    using mb by (simp add: set_object_entries map_of_SomeD)
  show ?thesis
    unfolding getOffers_room[OF room]
    using entries_from_map_filter[OF d m,
        where c = "\<lambda>k d. k \<noteq> B \<and> truthy_string (js_get (offers d) B)"
          and g = "\<lambda>d. js_get (offers d) B"]
    by simp
qed

lemma getAnswers_from:
  assumes "wf_rooms s" and "mailbox_of s R A = Some mb"
  shows "\<exists>res. getAnswers R B s = (Inr res, s) \<and>
           entries_from A res =
             (if A \<noteq> B \<and> truthy_string (js_get (answers mb) B)
              then [(A, js_get (answers mb) B)] else [])"
proof -
  from assms(2) obtain room where room: "map_of s R = Some room"
    and mb: "map_of (participants room) A = Some mb"
    by (auto dest: mailbox_ofD)
  have d: "distinct (map fst (object_entries (participants room)))"
    using assms(1) room by (simp add: distinct_object_entries wf_rooms_lookup)
  have m: "(A, mb) \<in> set (object_entries (participants room))"
    using mb by (simp add: set_object_entries map_of_SomeD)
  show ?thesis
    unfolding getAnswers_room[OF room]
    using entries_from_map_filter[OF d m,
        where c = "\<lambda>k d. k \<noteq> B \<and> truthy_string (js_get (answers d) B)"
          and g = "\<lambda>d. js_get (answers d) B"]
    by simp
qed

lemma getIceCandidates_room:
  "map_of s R = Some room \<Longrightarrow>
   getIceCandidates R B s =
     (Inr (snd (drain_candidates B (object_entries (participants room)) (participants room, []))),
      AList.update R (room\<lparr>participants :=
         fst (drain_candidates B (object_entries (participants room)) (participants room, []))\<rparr>) s)"
  by (simp add: getIceCandidates_def split: prod.splits)

lemma getIceCandidates_from:
  fixes B :: string
  assumes "wf_rooms s" and "mailbox_of s R A = Some mb"
  defines "hit \<equiv> A \<noteq> B \<and> truthy_object (js_get (iceCandidates mb) B)
                   \<and> 0 < js_length (js_get (iceCandidates mb) B)"
  shows "\<exists>res. fst (getIceCandidates R B s) = Inr res \<and>
           entries_from A res = (if hit then [(A, js_get (iceCandidates mb) B)] else [])"
    and "mailbox_of (snd (getIceCandidates R B s)) R A =
           Some (if hit then mb\<lparr>iceCandidates := AList.update B [] (iceCandidates mb)\<rparr> else mb)"
proof -
  from assms(2) obtain room where room: "map_of s R = Some room"
    and mb: "map_of (participants room) A = Some mb"
    by (auto dest: mailbox_ofD)
  have d0: "distinct (map fst (participants room))"
    using assms(1) room by (rule wf_rooms_lookup)
  have d: "distinct (map fst (object_entries (participants room)))"
    using d0 by (rule distinct_object_entries)
  have m: "(A, mb) \<in> set (object_entries (participants room))"
    using mb by (simp add: set_object_entries map_of_SomeD)
  show "\<exists>res. fst (getIceCandidates R B s) = Inr res \<and>
           entries_from A res = (if hit then [(A, js_get (iceCandidates mb) B)] else [])"
    unfolding getIceCandidates_room[OF room] drain_result hit_def
    using entries_from_map_filter[OF d m,
        where c = "\<lambda>k d. k \<noteq> B \<and> truthy_object (js_get (iceCandidates d) B)
                   \<and> 0 < js_length (js_get (iceCandidates d) B)"
          and g = "\<lambda>d. js_get (iceCandidates d) B"]
    by simp
  show "mailbox_of (snd (getIceCandidates R B s)) R A =
           Some (if hit then mb\<lparr>iceCandidates := AList.update B [] (iceCandidates mb)\<rparr> else mb)"
    unfolding getIceCandidates_room[OF room] hit_def
    using mb by (simp add: mailbox_of_update drain_map_of[OF d] map_of_object_entries[OF d0])
qed

lemma getIceCandidates_wf:
  "wf_rooms s \<Longrightarrow> wf_rooms (snd (getIceCandidates R B s))"
proof (cases "map_of s R")
  case None
  then show "wf_rooms s \<Longrightarrow> ?thesis" by (simp add: getIceCandidates_def)
next
  case (Some room)
  assume wf: "wf_rooms s"
  have "map fst (fst (drain_candidates B (object_entries (participants room)) (participants room, [])))
          = map fst (participants room)"
    by (rule drain_keys) (simp add: set_object_entries)
  then show ?thesis
    unfolding getIceCandidates_room[OF Some]
    using wf_rooms_lookup[OF wf Some] by (auto intro!: wf_rooms_update[OF wf])
qed

subsection \<open>joinRoom, and what every request preserves\<close>

lemma joinRoom_missing: "map_of s R = None \<Longrightarrow> joinRoom R p s = (Inl (NotFound R), s)"
  by (simp add: joinRoom_def)

lemma joinRoom_registered:
  "map_of s R = Some room \<Longrightarrow> \<exists>peers. fst (joinRoom R p s) = Inr peers \<and> p \<notin> set peers"
  by (simp add: joinRoom_def Let_def)

lemma joinRoom_existing: "mailbox_of s R p = Some mb \<Longrightarrow> snd (joinRoom R p s) = s"
  by (auto simp: joinRoom_def mailbox_of_def Let_def update_triv split: option.splits)

lemma joinRoom_wf: "wf_rooms s \<Longrightarrow> wf_rooms (snd (joinRoom R p s))"
  by (auto simp: joinRoom_def Let_def intro!: wf_rooms_update distinct_update
      dest: wf_rooms_lookup split: option.splits)

lemma createRoom_wf: "wf_rooms s \<Longrightarrow> wf_rooms (snd (createRoom R s))"
  by (auto simp: createRoom_def intro!: wf_rooms_update)

lemma sendOffer_wf: "wf_rooms s \<Longrightarrow> wf_rooms (snd (sendOffer R A B x s))"
  by (auto simp: sendOffer_def Let_def intro!: wf_rooms_update distinct_update
      dest: wf_rooms_lookup split: option.splits js_lookup.splits)

lemma sendAnswer_wf: "wf_rooms s \<Longrightarrow> wf_rooms (snd (sendAnswer R A B x s))"
  by (auto simp: sendAnswer_def Let_def intro!: wf_rooms_update distinct_update
      dest: wf_rooms_lookup split: option.splits js_lookup.splits)

lemma sendIceCandidate_wf: "wf_rooms s \<Longrightarrow> wf_rooms (snd (sendIceCandidate R A B x s))"
  by (cases "fst (sendIceCandidate R A B x s) = Inr True")
     (auto simp: sendIceCandidate_success_iff sendIceCandidate_joined(3)
        sendIceCandidate_failed_unchanged)

lemma apply_request_wf: "wf_rooms s \<Longrightarrow> wf_rooms (apply_request q s)"
  by (cases q)
     (simp_all add: createRoom_wf joinRoom_wf sendOffer_wf sendAnswer_wf sendIceCandidate_wf
        getIceCandidates_wf getOffers_def getAnswers_def split: option.splits)

lemma wf_rooms_run: "wf_rooms s \<Longrightarrow> wf_rooms (run reqs s)"
  unfolding run_def by (induction reqs arbitrary: s) (simp_all add: apply_request_wf)

lemma wf_rooms_empty: "wf_rooms []"
  by (simp add: wf_rooms_def)

lemma wf_rooms_reachable: "wf_rooms (run reqs [])"
  by (rule wf_rooms_run) (rule wf_rooms_empty)

lemma registered_update: "map_of s R \<noteq> None \<Longrightarrow> map_of (AList.update R' room' s) R \<noteq> None"
  by (simp add: update_conv')

lemma apply_request_registered:
  "map_of s R \<noteq> None \<Longrightarrow> map_of (apply_request q s) R \<noteq> None"
  by (cases q)
     (auto simp: createRoom_def joinRoom_def sendOffer_def sendAnswer_def sendIceCandidate_def
        getOffers_def getAnswers_def getIceCandidates_def Let_def update_conv'
        split: option.splits js_lookup.splits prod.splits if_splits)

lemma run_registered: "map_of s R \<noteq> None \<Longrightarrow> map_of (run reqs s) R \<noteq> None"
  unfolding run_def
proof (induction reqs arbitrary: s)
  case Nil
  then show ?case by simp
next
  case (Cons q reqs)
  from Cons.prems have "map_of (apply_request q s) R \<noteq> None"
    by (rule apply_request_registered)
  from Cons.IH[OF this] show ?case by simp
qed

lemma createRoom_registered: "map_of (snd (createRoom R s)) R \<noteq> None"
  by (simp add: createRoom_def update_conv')

subsection \<open>A send followed by the matching read\<close>

lemma sendOffer_then_getOffers:
  assumes wf: "wf_rooms s" and mb: "mailbox_of s R A = Some mb"
    and ne: "A \<noteq> B" and np: "B \<noteq> ''__proto__''"
  shows "\<exists>res. fst (getOffers R B (snd (sendOffer R A B x s))) = Inr res \<and>
           entries_from A res = (if x = [] then [] else [(A, Own x)])"
proof -
  let ?s' = "snd (sendOffer R A B x s)"
  have m': "mailbox_of ?s' R A = Some (mb\<lparr>offers := AList.update B x (offers mb)\<rparr>)"
    using sendOffer_joined(2)[OF mb, of B x] np by (simp add: js_set_string_def)
  from getOffers_from[OF sendOffer_wf[OF wf] m', of B] ne
  show ?thesis by auto
qed

lemma sendAnswer_then_getAnswers:
  assumes wf: "wf_rooms s" and mb: "mailbox_of s R A = Some mb"
    and ne: "A \<noteq> B" and np: "B \<noteq> ''__proto__''"
  shows "\<exists>res. fst (getAnswers R B (snd (sendAnswer R A B x s))) = Inr res \<and>
           entries_from A res = (if x = [] then [] else [(A, Own x)])"
proof -
  let ?s' = "snd (sendAnswer R A B x s)"
  have m': "mailbox_of ?s' R A = Some (mb\<lparr>answers := AList.update B x (answers mb)\<rparr>)"
    using sendAnswer_joined(2)[OF mb, of B x] np by (simp add: js_set_string_def)
  from getAnswers_from[OF sendAnswer_wf[OF wf] m', of B] ne
  show ?thesis by auto
qed

lemma sendIceCandidate_queued:
  assumes ok: "fst (sendIceCandidate R A B x s) = Inr True"
  shows "\<exists>mb. mailbox_of (snd (sendIceCandidate R A B x s)) R A = Some mb
           \<and> map_of (iceCandidates mb) B = Some (pending_candidates s R A B @ [x])"
proof -
  from ok obtain mb where mb: "mailbox_of s R A = Some mb"
    and c: "map_of (iceCandidates mb) B \<noteq> None \<or> B \<notin> set object_prototype_keys"
    by (auto simp: sendIceCandidate_success_iff)
  show ?thesis
    using sendIceCandidate_joined(2)[OF mb c, of x] by (simp add: update_conv')
qed


lemma getIceCandidates_own_queue:
  assumes wf: "wf_rooms s" and mb: "mailbox_of s R A = Some mb"
    and q: "map_of (iceCandidates mb) B = Some q" and ne: "A \<noteq> B"
  shows "\<exists>res. fst (getIceCandidates R B s) = Inr res \<and>
           entries_from A res = (if q = [] then [] else [(A, Own q)])"
    and "pending_candidates (snd (getIceCandidates R B s)) R A B = []"
  using getIceCandidates_from[OF wf mb, of B] q ne
  by (auto simp: pending_candidates_def update_conv')

lemma entries_from_excluded:
  "entries_from p (map (\<lambda>e. (fst e, g e)) (filter (\<lambda>e. fst e \<noteq> p \<and> c e) es)) = []"
  by (induction es) (auto simp: entries_from_def)

lemma drain_own_untouched:
  "map_of (fst (drain_candidates p es (ps, acc))) p = map_of ps p"
  by (induction es arbitrary: ps acc) (auto simp: update_conv')

lemma ordinary_not_proto: "B \<notin> set object_prototype_keys \<Longrightarrow> B \<noteq> ''__proto__''"
  by (auto simp: object_prototype_keys_def)

lemma joinRoom_other_mailbox:
  "A \<noteq> B \<Longrightarrow> mailbox_of (snd (joinRoom R B s)) R A = mailbox_of s R A"
  by (auto simp: joinRoom_def mailbox_of_def Let_def update_conv' split: option.splits)

lemma getOffers_pending:
  assumes "wf_rooms t" and "mailbox_of t R A = Some m" and "map_of (offers m) B = Some x"
    and "A \<noteq> B"
  shows "\<exists>res. fst (getOffers R B t) = Inr res \<and>
           entries_from A res = (if x = [] then [] else [(A, Own x)])"
  using getOffers_from[OF assms(1,2), of B] assms(3,4) by auto

lemma getAnswers_pending:
  assumes "wf_rooms t" and "mailbox_of t R A = Some m" and "map_of (answers m) B = Some x"
    and "A \<noteq> B"
  shows "\<exists>res. fst (getAnswers R B t) = Inr res \<and>
           entries_from A res = (if x = [] then [] else [(A, Own x)])"
  using getAnswers_from[OF assms(1,2), of B] assms(3,4) by auto

lemma sendOffer_stored:
  assumes "mailbox_of s R A = Some mb" and "B \<noteq> ''__proto__''"
  shows "\<exists>m. mailbox_of (snd (sendOffer R A B x s)) R A = Some m \<and> map_of (offers m) B = Some x"
  using sendOffer_joined(2)[OF assms(1), of B x] assms(2)
  by (simp add: js_set_string_def update_conv')

lemma sendAnswer_stored:
  assumes "mailbox_of s R A = Some mb" and "B \<noteq> ''__proto__''"
  shows "\<exists>m. mailbox_of (snd (sendAnswer R A B x s)) R A = Some m \<and> map_of (answers m) B = Some x"
  using sendAnswer_joined(2)[OF assms(1), of B x] assms(2)
  by (simp add: js_set_string_def update_conv')

lemma getIceCandidates_mailbox_none:
  "mailbox_of s R A = None \<Longrightarrow> mailbox_of (snd (getIceCandidates R q s)) R A = None"
proof (cases "map_of s R")
  case None
  then show "mailbox_of s R A = None \<Longrightarrow> ?thesis" by (simp add: getIceCandidates_def)
next
  case (Some room)
  assume "mailbox_of s R A = None"
  then have "A \<notin> fst ` set (participants room)"
    using Some by (simp add: mailbox_of_def map_of_eq_None_iff)
  moreover have "map fst (fst (drain_candidates q (object_entries (participants room))
      (participants room, []))) = map fst (participants room)"
    by (rule drain_keys) (simp add: set_object_entries)
  then have "fst ` set (fst (drain_candidates q (object_entries (participants room))
      (participants room, []))) = fst ` set (participants room)"
    by (metis list.set_map)
  ultimately show ?thesis
    unfolding getIceCandidates_room[OF Some]
    by (simp add: mailbox_of_update map_of_eq_None_iff)
qed

lemma getIceCandidates_other_queue:
  assumes wf: "wf_rooms s" and ne: "B \<noteq> q"
  shows "pending_candidates (snd (getIceCandidates R q s)) R A B = pending_candidates s R A B"
proof (cases "mailbox_of s R A")
  case None
  then show ?thesis
    by (simp add: pending_candidates_def getIceCandidates_mailbox_none)
next
  case (Some mb)
  show ?thesis
    using getIceCandidates_from(2)[OF wf Some, of q] ne
    by (simp add: pending_candidates_def Some update_conv')
qed

subsection \<open>A send from a peer without a mailbox\<close>

lemma send_without_mailbox:
  assumes "map_of s R = Some room" and "mailbox_of s R A = None"
  defines "e \<equiv> (if A \<in> set object_prototype_keys then TypeError else PeerNotFound A R)"
  shows "sendOffer R A B x s = (Inl e, s)"
    and "sendAnswer R A B x s = (Inl e, s)"
    and "sendIceCandidate R A B x s = (Inl e, s)"
  using assms(1,2) unfolding e_def
  by (auto simp: sendOffer_def sendAnswer_def sendIceCandidate_def mailbox_of_def js_get_def)

subsection \<open>Every call is confined to its room\<close>

lemma confined_to_others:
  "confined_to R1 f \<Longrightarrow> R2 \<noteq> R1 \<Longrightarrow> map_of (snd (f s)) R2 = map_of s R2"
  unfolding confined_to_def by blast

lemma confined_to_result:
  "confined_to R1 f \<Longrightarrow> map_of s' R1 = map_of s R1 \<Longrightarrow> fst (f s') = fst (f s)"
  unfolding confined_to_def by blast

lemma confined_joinRoom: "confined_to R (joinRoom R p)"
  unfolding confined_to_def
  by (auto simp: joinRoom_def Let_def update_conv' split: option.splits)

lemma confined_sendOffer: "confined_to R (sendOffer R A B x)"
  unfolding confined_to_def
  by (auto simp: sendOffer_def Let_def update_conv' split: option.splits js_lookup.splits)

lemma confined_sendAnswer: "confined_to R (sendAnswer R A B x)"
  unfolding confined_to_def
  by (auto simp: sendAnswer_def Let_def update_conv' split: option.splits js_lookup.splits)

lemma confined_sendIceCandidate: "confined_to R (sendIceCandidate R A B x)"
  unfolding confined_to_def
  by (auto simp: sendIceCandidate_def Let_def update_conv' split: option.splits js_lookup.splits)

lemma confined_getOffers: "confined_to R (getOffers R p)"
  unfolding confined_to_def
  by (auto simp: getOffers_def split: option.splits)

lemma confined_getAnswers: "confined_to R (getAnswers R p)"
  unfolding confined_to_def
  by (auto simp: getAnswers_def split: option.splits)

lemma confined_getIceCandidates: "confined_to R (getIceCandidates R p)"
  unfolding confined_to_def
  by (auto simp: getIceCandidates_def update_conv' split: option.splits prod.splits)

subsection \<open>The model on the scenario of the specification\<close>

text \<open>
  The end-to-end scenario of the specification, request by request, and the order in
  which \<^verbatim>\<open>Object.keys\<close> lists array-index keys and other keys.
\<close>

lemma end_to_end_scenario:
  "fst (joinRoom ''r'' ''A'' (snd (createRoom ''r'' []))) = Inr []
   \<and> fst (joinRoom ''r'' ''B'' (run [CreateRoom ''r'', JoinRoom ''r'' ''A''] [])) = Inr [''A'']
   \<and> fst (getOffers ''r'' ''B''
        (run [CreateRoom ''r'', JoinRoom ''r'' ''A'', JoinRoom ''r'' ''B'',
              SendOffer ''r'' ''A'' ''B'' ''o1''] [])) = Inr [(''A'', Own ''o1'')]
   \<and> fst (getAnswers ''r'' ''A''
        (run [CreateRoom ''r'', JoinRoom ''r'' ''A'', JoinRoom ''r'' ''B'',
              SendOffer ''r'' ''A'' ''B'' ''o1'', GetOffers ''r'' ''B'',
              SendAnswer ''r'' ''B'' ''A'' ''a1''] [])) = Inr [(''B'', Own ''a1'')]
   \<and> fst (getIceCandidates ''r'' ''B''
        (run [CreateRoom ''r'', JoinRoom ''r'' ''A'', JoinRoom ''r'' ''B'',
              SendOffer ''r'' ''A'' ''B'' ''o1'', GetOffers ''r'' ''B'',
              SendAnswer ''r'' ''B'' ''A'' ''a1'', GetAnswers ''r'' ''A'',
              SendIceCandidate ''r'' ''A'' ''B'' ''c1'',
              SendIceCandidate ''r'' ''A'' ''B'' ''c2''] []))
       = Inr [(''A'', Own [''c1'', ''c2''])]
   \<and> fst (getIceCandidates ''r'' ''B''
        (run [CreateRoom ''r'', JoinRoom ''r'' ''A'', JoinRoom ''r'' ''B'',
              SendOffer ''r'' ''A'' ''B'' ''o1'', GetOffers ''r'' ''B'',
              SendAnswer ''r'' ''B'' ''A'' ''a1'', GetAnswers ''r'' ''A'',
              SendIceCandidate ''r'' ''A'' ''B'' ''c1'',
              SendIceCandidate ''r'' ''A'' ''B'' ''c2'',
              GetIceCandidates ''r'' ''B''] [])) = Inr []"
  by code_simp

lemma object_keys_order:
  "object_keys [(''b'', x1), (''10'', x2), (''9'', x3), (''a'', x4), (''01'', x5)]
     = [''9'', ''10'', ''b'', ''a'', ''01'']"
  by (simp add: object_keys_def object_entries_def is_array_index_def is_digit_def
      decimal_value_def)

section \<open>The claims\<close>

subsection \<open>C1: candidates accumulate and are drained by one read\<close>




subsection \<open>C2: the last offer (answer) of a pair wins\<close>

text \<open>
  C2, as the code has it. In a well-formed registry, let \<open>A\<close> own a mailbox in the room
  and let \<open>B\<close> be another peer id, not the reserved key \<^verbatim>\<open>__proto__\<close>. When \<open>A\<close> sends the offer \<open>O1\<close> and then the
  offer \<open>O2\<close> to \<open>B\<close>, both sends succeed and \<^verbatim>\<open>getOffers\<close> called by \<open>B\<close> returns, from
  \<open>A\<close>, the single entry \<open>O2\<close> when \<open>O2\<close> is not the empty string and no entry at all
  when it is: \<open>O1\<close> is overwritten in both cases, but the read reports a pending offer
  only if it is truthy. The same holds for \<^verbatim>\<open>sendAnswer\<close> and \<^verbatim>\<open>getAnswers\<close>.
\<close>

theorem last_write_wins:
  assumes wf: "wf_rooms s" and mb: "mailbox_of s R A = Some mb"
    and ne: "A \<noteq> B" and np: "B \<noteq> ''__proto__''"
  shows "(let s1 = snd (sendOffer R A B O1 s); s2 = snd (sendOffer R A B O2 s1)
          in fst (sendOffer R A B O1 s) = Inr True \<and> fst (sendOffer R A B O2 s1) = Inr True
           \<and> (\<exists>res. fst (getOffers R B s2) = Inr res \<and>
                 entries_from A res = (if O2 = [] then [] else [(A, Own O2)])))
       \<and> (let s1 = snd (sendAnswer R A B O1 s); s2 = snd (sendAnswer R A B O2 s1)
          in fst (sendAnswer R A B O1 s) = Inr True \<and> fst (sendAnswer R A B O2 s1) = Inr True
           \<and> (\<exists>res. fst (getAnswers R B s2) = Inr res \<and>
                 entries_from A res = (if O2 = [] then [] else [(A, Own O2)])))"
proof -
  have o1: "mailbox_of (snd (sendOffer R A B O1 s)) R A
              = Some (mb\<lparr>offers := js_set_string (offers mb) B O1\<rparr>)"
    by (simp add: sendOffer_joined(2)[OF mb])
  have a1: "mailbox_of (snd (sendAnswer R A B O1 s)) R A
              = Some (mb\<lparr>answers := js_set_string (answers mb) B O1\<rparr>)"
    by (simp add: sendAnswer_joined(2)[OF mb])
  show ?thesis
    unfolding Let_def
    using sendOffer_joined(1)[OF mb] sendOffer_joined(1)[OF o1]
      sendOffer_then_getOffers[OF sendOffer_wf[OF wf] o1 ne np]
      sendAnswer_joined(1)[OF mb] sendAnswer_joined(1)[OF a1]
      sendAnswer_then_getAnswers[OF sendAnswer_wf[OF wf] a1 ne np]
    by blast
qed

theorem last_write_wins_witness:
  "(\<exists>res. fst (getOffers ''r'' ''b''
              (snd (sendOffer ''r'' ''a'' ''b'' ''o2''
                 (snd (sendOffer ''r'' ''a'' ''b'' ''o1'' two_peers))))) = Inr res
          \<and> entries_from ''a'' res = [(''a'', Own ''o2'')])
   \<and> (\<exists>res. fst (getAnswers ''r'' ''b''
              (snd (sendAnswer ''r'' ''a'' ''b'' ''o2''
                 (snd (sendAnswer ''r'' ''a'' ''b'' ''o1'' two_peers))))) = Inr res
          \<and> entries_from ''a'' res = [(''a'', Own ''o2'')])"
proof -
  have wf: "wf_rooms two_peers" by code_simp
  have mb: "mailbox_of two_peers ''r'' ''a'' = Some empty_mailbox" by code_simp
  have ne: "''a'' \<noteq> ''b''" and np: "''b'' \<noteq> ''__proto__''" by simp_all
  from last_write_wins[OF wf mb ne np, of "''o1''" "''o2''"]
  show ?thesis by (simp add: Let_def)
qed

theorem last_write_wins_counterexample:
  "mailbox_of two_peers ''r'' ''a'' = Some empty_mailbox
   \<and> fst (sendOffer ''r'' ''a'' ''b'' ''o1'' two_peers) = Inr True
   \<and> fst (sendOffer ''r'' ''a'' ''b'' '''' (snd (sendOffer ''r'' ''a'' ''b'' ''o1'' two_peers)))
       = Inr True
   \<and> fst (getOffers ''r'' ''b''
        (snd (sendOffer ''r'' ''a'' ''b'' ''''
           (snd (sendOffer ''r'' ''a'' ''b'' ''o1'' two_peers))))) = Inr []"
  by code_simp

subsection \<open>C3: reading offers and answers changes nothing\<close>

text \<open>
  C3. \<^verbatim>\<open>getOffers\<close> and \<^verbatim>\<open>getAnswers\<close> leave the registry exactly as it was, in every
  state and for every room and peer (also when the room is unknown and the call throws).
  Calling either of them again right after itself therefore returns the same result and
  the same registry: pending offers and answers are not cleared by a read.
\<close>

theorem offer_answer_reads_keep_state:
  "snd (getOffers R B s) = s \<and> snd (getAnswers R B s) = s
   \<and> getOffers R B (snd (getOffers R B s)) = getOffers R B s
   \<and> getAnswers R B (snd (getAnswers R B s)) = getAnswers R B s"
  by (simp add: getOffers_def getAnswers_def split: option.splits)

theorem offer_answer_reads_keep_state_witness:
  "fst (getOffers ''r'' ''b'' (snd (sendOffer ''r'' ''a'' ''b'' ''o1'' two_peers)))
     = Inr [(''a'', Own ''o1'')]
   \<and> getOffers ''r'' ''b''
        (snd (getOffers ''r'' ''b'' (snd (sendOffer ''r'' ''a'' ''b'' ''o1'' two_peers))))
     = getOffers ''r'' ''b'' (snd (sendOffer ''r'' ''a'' ''b'' ''o1'' two_peers))"
proof -
  have "fst (getOffers ''r'' ''b'' (snd (sendOffer ''r'' ''a'' ''b'' ''o1'' two_peers)))
     = Inr [(''a'', Own ''o1'')]"
    by code_simp
  with offer_answer_reads_keep_state
    [of "''r''" "''b''" "snd (sendOffer ''r'' ''a'' ''b'' ''o1'' two_peers)"]
  show ?thesis by simp
qed

subsection \<open>C4: a send from a peer that never joined\<close>

text \<open>
  C4. The claim is that a send whose \<^verbatim>\<open>fromPeerId\<close> has no mailbox fails with
  \<^verbatim>\<open>PeerNotFound\<close> and changes nothing. In the room joined by \<open>a\<close> and \<open>b\<close> this is
  what happens for the peer id \<open>c\<close>. The peer id \<^verbatim>\<open>constructor\<close> has no mailbox either,
  but the guard \<^verbatim>\<open>!room.participants[fromPeerId]\<close> tests the lookup for truthiness and
  the lookup finds the inherited \<^verbatim>\<open>Object.prototype.constructor\<close>: each of the three
  sends passes the guard and throws a \<^verbatim>\<open>TypeError\<close> instead. The registry is unchanged
  in both cases.
\<close>

theorem sendOffer_from_constructor:
  "mailbox_of two_peers ''r'' ''c'' = None
   \<and> sendOffer ''r'' ''c'' ''b'' ''o1'' two_peers = (Inl (PeerNotFound ''c'' ''r''), two_peers)
   \<and> mailbox_of two_peers ''r'' ''constructor'' = None
   \<and> sendOffer ''r'' ''constructor'' ''b'' ''o1'' two_peers = (Inl TypeError, two_peers)
   \<and> sendAnswer ''r'' ''constructor'' ''b'' ''a1'' two_peers = (Inl TypeError, two_peers)
   \<and> sendIceCandidate ''r'' ''constructor'' ''b'' ''c1'' two_peers = (Inl TypeError, two_peers)"
  by code_simp

subsection \<open>C5: joinRoom succeeds exactly for the registered rooms\<close>

text \<open>
  C5. After \<^verbatim>\<open>createRoom\<close> has registered the room id \<open>R\<close>, and after any further
  requests, \<^verbatim>\<open>joinRoom(R, p)\<close> returns a list of peers that does not contain \<open>p\<close>. More
  generally \<^verbatim>\<open>joinRoom(R, p)\<close> succeeds, with such a list, in every registry that holds
  \<open>R\<close>, and fails with \<^verbatim>\<open>NotFound\<close>, leaving the registry as it was, in every registry
  that does not.
\<close>

theorem joinRoom_succeeds_iff_registered:
  "(\<exists>peers. fst (joinRoom R p (run reqs (snd (createRoom R s)))) = Inr peers \<and> p \<notin> set peers)
   \<and> (map_of s R \<noteq> None \<longrightarrow> (\<exists>peers. fst (joinRoom R p s) = Inr peers \<and> p \<notin> set peers))
   \<and> (map_of s R = None \<longrightarrow> joinRoom R p s = (Inl (NotFound R), s))"
proof -
  have "map_of (run reqs (snd (createRoom R s))) R \<noteq> None"
    by (rule run_registered) (rule createRoom_registered)
  then show ?thesis
    by (auto simp: joinRoom_missing dest: joinRoom_registered)
qed

theorem joinRoom_succeeds_iff_registered_witness:
  "fst (joinRoom ''r'' ''b'' (run [JoinRoom ''r'' ''a''] (snd (createRoom ''r'' [])))) = Inr [''a'']
   \<and> (\<exists>peers. fst (joinRoom ''r'' ''b'' two_peers) = Inr peers \<and> ''b'' \<notin> set peers)
   \<and> joinRoom ''x'' ''b'' two_peers = (Inl (NotFound ''x''), two_peers)"
proof -
  have e: "fst (joinRoom ''r'' ''b'' (run [JoinRoom ''r'' ''a''] (snd (createRoom ''r'' []))))
             = Inr [''a'']" by code_simp
  have r: "map_of two_peers ''r'' \<noteq> None" by code_simp
  have x: "map_of two_peers ''x'' = None" by code_simp
  from joinRoom_succeeds_iff_registered[of "''r''" "''b''" "[]" two_peers]
    joinRoom_succeeds_iff_registered[of "''x''" "''b''" "[]" two_peers] e r x
  show ?thesis by simp
qed

subsection \<open>C6: joining again keeps the mailbox\<close>

text \<open>
  C6. If \<open>p\<close> already owns a mailbox \<open>mb\<close> in room \<open>R\<close>, whatever offers, answers and
  candidate queues it holds, \<^verbatim>\<open>joinRoom(R, p)\<close> leaves the whole registry unchanged, so
  the mailbox is neither reset nor duplicated. And in every registry, joining twice in
  a row leaves the registry as the first join left it.
\<close>

theorem joinRoom_twice_keeps_mailbox:
  "(mailbox_of s R p = Some mb \<longrightarrow> snd (joinRoom R p s) = s)
   \<and> snd (joinRoom R p (snd (joinRoom R p s))) = snd (joinRoom R p s)"
proof -
  have "snd (joinRoom R p (snd (joinRoom R p s))) = snd (joinRoom R p s)"
    by (auto simp: joinRoom_def Let_def update_conv' js_get_def split: option.splits)
  then show ?thesis by (simp add: joinRoom_existing)
qed

theorem joinRoom_twice_keeps_mailbox_witness:
  "mailbox_of (snd (sendOffer ''r'' ''a'' ''b'' ''o1'' two_peers)) ''r'' ''a''
     = Some \<lparr>offers = [(''b'', ''o1'')], answers = [], iceCandidates = []\<rparr>
   \<and> snd (joinRoom ''r'' ''a'' (snd (sendOffer ''r'' ''a'' ''b'' ''o1'' two_peers)))
     = snd (sendOffer ''r'' ''a'' ''b'' ''o1'' two_peers)"
proof -
  have m: "mailbox_of (snd (sendOffer ''r'' ''a'' ''b'' ''o1'' two_peers)) ''r'' ''a''
     = Some \<lparr>offers = [(''b'', ''o1'')], answers = [], iceCandidates = []\<rparr>"
    by code_simp
  from joinRoom_twice_keeps_mailbox[of "snd (sendOffer ''r'' ''a'' ''b'' ''o1'' two_peers)"
      "''r''" "''a''" "\<lparr>offers = [(''b'', ''o1'')], answers = [], iceCandidates = []\<rparr>"] m
  show ?thesis by simp
qed

subsection \<open>C7: a send to a peer that has no mailbox\<close>

text \<open>
  C7, as the code has it. In a well-formed registry, let \<open>A\<close> own a mailbox in the
  room, and let \<open>B\<close> be a peer id that has none and that is not the name of a member of
  \<^verbatim>\<open>Object.prototype\<close>. Then
  \<^verbatim>\<open>sendOffer\<close>, \<^verbatim>\<open>sendAnswer\<close> and \<^verbatim>\<open>sendIceCandidate\<close> from \<open>A\<close> to \<open>B\<close> all
  succeed. The matching read with \<^verbatim>\<open>peerId = B\<close>, right after the send or after \<open>B\<close> has
  joined, returns the candidate at the end of the batch from \<open>A\<close>, and returns the offer
  or answer as the single entry from \<open>A\<close> when the payload is not the empty string; an
  empty offer or answer is accepted by the send and not returned by the read.
\<close>

theorem send_to_unknown_recipient:
  assumes wf: "wf_rooms s" and mb: "mailbox_of s R A = Some mb"
    and nb: "mailbox_of s R B = None" and ord: "B \<notin> set object_prototype_keys"
  shows "fst (sendOffer R A B x s) = Inr True
       \<and> fst (sendAnswer R A B x s) = Inr True
       \<and> fst (sendIceCandidate R A B x s) = Inr True
       \<and> (\<forall>t \<in> {snd (sendOffer R A B x s), snd (joinRoom R B (snd (sendOffer R A B x s)))}.
            \<exists>res. fst (getOffers R B t) = Inr res \<and>
                  entries_from A res = (if x = [] then [] else [(A, Own x)]))
       \<and> (\<forall>t \<in> {snd (sendAnswer R A B x s), snd (joinRoom R B (snd (sendAnswer R A B x s)))}.
            \<exists>res. fst (getAnswers R B t) = Inr res \<and>
                  entries_from A res = (if x = [] then [] else [(A, Own x)]))
       \<and> (\<forall>t \<in> {snd (sendIceCandidate R A B x s),
                  snd (joinRoom R B (snd (sendIceCandidate R A B x s)))}.
            \<exists>res. fst (getIceCandidates R B t) = Inr res \<and>
                  entries_from A res = [(A, Own (pending_candidates s R A B @ [x]))])"
proof -
  from mb nb have ne: "A \<noteq> B" by auto
  note np = ordinary_not_proto[OF ord]
  have ok: "fst (sendIceCandidate R A B x s) = Inr True"
    using sendIceCandidate_joined(1)[OF mb] ord by simp
  have offers: "\<exists>res. fst (getOffers R B t) = Inr res \<and>
                  entries_from A res = (if x = [] then [] else [(A, Own x)])"
    if "t \<in> {snd (sendOffer R A B x s), snd (joinRoom R B (snd (sendOffer R A B x s)))}" for t
  proof -
    from sendOffer_stored[OF mb np, of x] obtain m
      where m: "mailbox_of (snd (sendOffer R A B x s)) R A = Some m"
        and x: "map_of (offers m) B = Some x" by blast
    from that m have "wf_rooms t" and "mailbox_of t R A = Some m"
      by (auto simp: joinRoom_other_mailbox[OF ne] intro: joinRoom_wf sendOffer_wf wf)
    then show ?thesis using x ne by (rule getOffers_pending)
  qed
  have answers: "\<exists>res. fst (getAnswers R B t) = Inr res \<and>
                  entries_from A res = (if x = [] then [] else [(A, Own x)])"
    if "t \<in> {snd (sendAnswer R A B x s), snd (joinRoom R B (snd (sendAnswer R A B x s)))}" for t
  proof -
    from sendAnswer_stored[OF mb np, of x] obtain m
      where m: "mailbox_of (snd (sendAnswer R A B x s)) R A = Some m"
        and x: "map_of (answers m) B = Some x" by blast
    from that m have "wf_rooms t" and "mailbox_of t R A = Some m"
      by (auto simp: joinRoom_other_mailbox[OF ne] intro: joinRoom_wf sendAnswer_wf wf)
    then show ?thesis using x ne by (rule getAnswers_pending)
  qed
  have candidates: "\<exists>res. fst (getIceCandidates R B t) = Inr res \<and>
                  entries_from A res = [(A, Own (pending_candidates s R A B @ [x]))]"
    if "t \<in> {snd (sendIceCandidate R A B x s),
              snd (joinRoom R B (snd (sendIceCandidate R A B x s)))}" for t
  proof -
    from sendIceCandidate_queued[OF ok] obtain m
      where m: "mailbox_of (snd (sendIceCandidate R A B x s)) R A = Some m"
        and q: "map_of (iceCandidates m) B = Some (pending_candidates s R A B @ [x])" by blast
    from that m have "wf_rooms t" and "mailbox_of t R A = Some m"
      by (auto simp: joinRoom_other_mailbox[OF ne] intro: joinRoom_wf sendIceCandidate_wf wf)
    from getIceCandidates_own_queue(1)[OF this q ne] show ?thesis by simp
  qed
  show ?thesis
    using sendOffer_joined(1)[OF mb] sendAnswer_joined(1)[OF mb] ok offers answers candidates
    by blast
qed

theorem send_to_unknown_recipient_witness:
  "mailbox_of two_peers ''r'' ''c'' = None
   \<and> fst (sendOffer ''r'' ''a'' ''c'' ''o1'' two_peers) = Inr True
   \<and> fst (sendIceCandidate ''r'' ''a'' ''c'' ''c1'' two_peers) = Inr True
   \<and> (\<exists>res. fst (getOffers ''r'' ''c''
              (snd (joinRoom ''r'' ''c'' (snd (sendOffer ''r'' ''a'' ''c'' ''o1'' two_peers)))))
            = Inr res \<and> entries_from ''a'' res = [(''a'', Own ''o1'')])
   \<and> (\<exists>res. fst (getIceCandidates ''r'' ''c''
              (snd (sendIceCandidate ''r'' ''a'' ''c'' ''c1'' two_peers)))
            = Inr res \<and> entries_from ''a'' res = [(''a'', Own [''c1''])])"
proof -
  have wf: "wf_rooms two_peers" by code_simp
  have mb: "mailbox_of two_peers ''r'' ''a'' = Some empty_mailbox" by code_simp
  have nb: "mailbox_of two_peers ''r'' ''c'' = None" by code_simp
  have ord: "''c'' \<notin> set object_prototype_keys" by code_simp
  have p: "pending_candidates two_peers ''r'' ''a'' ''c'' = []" by code_simp
  from send_to_unknown_recipient[OF wf mb nb ord, of "''o1''"]
    send_to_unknown_recipient[OF wf mb nb ord, of "''c1''"] p nb
  show ?thesis by simp
qed

theorem send_to_unknown_recipient_counterexample:
  "mailbox_of two_peers ''r'' ''a'' = Some empty_mailbox
   \<and> mailbox_of two_peers ''r'' ''c'' = None
   \<and> fst (sendOffer ''r'' ''a'' ''c'' '''' two_peers) = Inr True
   \<and> fst (getOffers ''r'' ''c'' (snd (sendOffer ''r'' ''a'' ''c'' '''' two_peers))) = Inr []"
  by code_simp

subsection \<open>C8: payloads are stored and returned as they were sent\<close>

text \<open>
  C8, as the code has it. In a well-formed registry, let \<open>A\<close> own a mailbox, and let
  \<open>B\<close> be another peer id that is not the name of a member of \<^verbatim>\<open>Object.prototype\<close>.
  Every payload \<open>x\<close> that \<open>A\<close> sends to
  \<open>B\<close> is stored unchanged. A candidate \<open>x\<close>, whatever its content, is returned unchanged
  at the end of the batch that \<^verbatim>\<open>getIceCandidates\<close> gives \<open>B\<close> from \<open>A\<close>. An offer or
  answer \<open>x\<close> is returned unchanged by \<^verbatim>\<open>getOffers\<close> or \<^verbatim>\<open>getAnswers\<close> when it is not
  the empty string, and is not returned when it is: the reads test the stored payload
  for truthiness.
\<close>

theorem payload_verbatim:
  assumes wf: "wf_rooms s" and mb: "mailbox_of s R A = Some mb"
    and ne: "A \<noteq> B" and ord: "B \<notin> set object_prototype_keys"
  shows "(\<exists>m. mailbox_of (snd (sendOffer R A B x s)) R A = Some m \<and> map_of (offers m) B = Some x)
       \<and> (\<exists>res. fst (getOffers R B (snd (sendOffer R A B x s))) = Inr res \<and>
                  entries_from A res = (if x = [] then [] else [(A, Own x)]))
       \<and> (\<exists>m. mailbox_of (snd (sendAnswer R A B x s)) R A = Some m \<and> map_of (answers m) B = Some x)
       \<and> (\<exists>res. fst (getAnswers R B (snd (sendAnswer R A B x s))) = Inr res \<and>
                  entries_from A res = (if x = [] then [] else [(A, Own x)]))
       \<and> (\<exists>res. fst (getIceCandidates R B (snd (sendIceCandidate R A B x s))) = Inr res \<and>
                  entries_from A res = [(A, Own (pending_candidates s R A B @ [x]))])"
proof -
  note np = ordinary_not_proto[OF ord]
  have ok: "fst (sendIceCandidate R A B x s) = Inr True"
    using sendIceCandidate_joined(1)[OF mb] ord by simp
  from sendIceCandidate_queued[OF ok] obtain m
    where m: "mailbox_of (snd (sendIceCandidate R A B x s)) R A = Some m"
      and q: "map_of (iceCandidates m) B = Some (pending_candidates s R A B @ [x])" by blast
  have "\<exists>res. fst (getIceCandidates R B (snd (sendIceCandidate R A B x s))) = Inr res \<and>
                  entries_from A res = [(A, Own (pending_candidates s R A B @ [x]))]"
    using getIceCandidates_own_queue(1)[OF sendIceCandidate_wf[OF wf] m q ne] by simp
  then show ?thesis
    using sendOffer_stored[OF mb np] sendAnswer_stored[OF mb np]
      sendOffer_then_getOffers[OF wf mb ne np] sendAnswer_then_getAnswers[OF wf mb ne np]
    by blast
qed

theorem payload_verbatim_witness:
  "(\<exists>res. fst (getAnswers ''r'' ''a'' (snd (sendAnswer ''r'' ''b'' ''a'' ''v=0'' two_peers)))
            = Inr res \<and> entries_from ''b'' res = [(''b'', Own ''v=0'')])
   \<and> (\<exists>res. fst (getIceCandidates ''r'' ''a''
               (snd (sendIceCandidate ''r'' ''b'' ''a'' '''' two_peers)))
            = Inr res \<and> entries_from ''b'' res = [(''b'', Own [''''])])"
proof -
  have wf: "wf_rooms two_peers" by code_simp
  have mb: "mailbox_of two_peers ''r'' ''b'' = Some empty_mailbox" by code_simp
  have ne: "''b'' \<noteq> ''a''" by simp
  have ord: "''a'' \<notin> set object_prototype_keys" by code_simp
  have p: "pending_candidates two_peers ''r'' ''b'' ''a'' = []" by code_simp
  from payload_verbatim[OF wf mb ne ord, of "''v=0''"] payload_verbatim[OF wf mb ne ord, of "''''"] p
  show ?thesis by simp
qed

theorem payload_verbatim_counterexample:
  "mailbox_of two_peers ''r'' ''b'' = Some empty_mailbox
   \<and> fst (sendAnswer ''r'' ''b'' ''a'' '''' two_peers) = Inr True
   \<and> fst (getAnswers ''r'' ''a'' (snd (sendAnswer ''r'' ''b'' ''a'' '''' two_peers))) = Inr []"
  by code_simp

subsection \<open>C9: rooms are isolated from each other\<close>

text \<open>
  C9. Each of \<^verbatim>\<open>joinRoom\<close>, \<^verbatim>\<open>sendOffer\<close>, \<^verbatim>\<open>sendAnswer\<close>, \<^verbatim>\<open>sendIceCandidate\<close>,
  \<^verbatim>\<open>getOffers\<close>, \<^verbatim>\<open>getAnswers\<close> and \<^verbatim>\<open>getIceCandidates\<close>, called with room id
  \<open>R1\<close>, is confined to \<open>R1\<close>: every other room \<open>R2\<close> is left as it was, and the result
  of the call (and the new state of \<open>R1\<close>) is the same in any two registries that agree
  on \<open>R1\<close>, so it does not depend on the state of \<open>R2\<close>.
\<close>

theorem room_isolation:
  "confined_to R1 (joinRoom R1 p)
   \<and> confined_to R1 (sendOffer R1 A B x)
   \<and> confined_to R1 (sendAnswer R1 A B x)
   \<and> confined_to R1 (sendIceCandidate R1 A B x)
   \<and> confined_to R1 (getOffers R1 p)
   \<and> confined_to R1 (getAnswers R1 p)
   \<and> confined_to R1 (getIceCandidates R1 p)"
  by (simp add: confined_joinRoom confined_sendOffer confined_sendAnswer
      confined_sendIceCandidate confined_getOffers confined_getAnswers
      confined_getIceCandidates)

theorem room_isolation_witness:
  "map_of (snd (sendOffer ''r1'' ''a'' ''b'' ''o1'' two_rooms)) ''r2'' = map_of two_rooms ''r2''
   \<and> map_of (snd (getIceCandidates ''r1'' ''a'' two_rooms)) ''r2'' = map_of two_rooms ''r2''
   \<and> fst (getOffers ''r1'' ''b'' (snd (createRoom ''r2'' two_rooms)))
       = fst (getOffers ''r1'' ''b'' two_rooms)"
proof -
  have ne: "''r2'' \<noteq> ''r1''" by simp
  have agree: "map_of (snd (createRoom ''r2'' two_rooms)) ''r1'' = map_of two_rooms ''r1''"
    by code_simp
  note iso = room_isolation[of "''r1''" _ "''a''" "''b''" "''o1''"]
  have 1: "confined_to ''r1'' (sendOffer ''r1'' ''a'' ''b'' ''o1'')"
    using iso[of "''a''"] by (elim conjE)
  have 2: "confined_to ''r1'' (getIceCandidates ''r1'' ''a'')"
    using iso[of "''a''"] by (elim conjE)
  have 3: "confined_to ''r1'' (getOffers ''r1'' ''b'')"
    using iso[of "''b''"] by (elim conjE)
  show ?thesis
    by (intro conjI confined_to_others[OF 1 ne] confined_to_others[OF 2 ne]
        confined_to_result[OF 3 agree])
qed

subsection \<open>C10: what a peer addresses to itself is never delivered\<close>

text \<open>
  C10. In every registry, for every room and peer \<open>p\<close>, the results of
  \<^verbatim>\<open>getOffers\<close>, \<^verbatim>\<open>getAnswers\<close> and \<^verbatim>\<open>getIceCandidates\<close> called with
  \<^verbatim>\<open>peerId = p\<close> hold no entry from \<open>p\<close>: the loops skip the reader's own mailbox. So
  whatever \<open>p\<close> has sent with \<^verbatim>\<open>toPeerId = p\<close> is not returned to it. And
  \<^verbatim>\<open>getIceCandidates\<close> called by \<open>p\<close> leaves the mailbox of \<open>p\<close> as it was; called by
  any peer \<open>q\<close>, it leaves the queue that \<open>p\<close> addressed to itself as it was: that queue
  is never drained.
\<close>

theorem self_addressed_never_delivered:
  "(\<forall>res. fst (getOffers R p s) = Inr res \<longrightarrow> entries_from p res = [])
   \<and> (\<forall>res. fst (getAnswers R p s) = Inr res \<longrightarrow> entries_from p res = [])
   \<and> (\<forall>res. fst (getIceCandidates R p s) = Inr res \<longrightarrow> entries_from p res = [])
   \<and> mailbox_of (snd (getIceCandidates R p s)) R p = mailbox_of s R p
   \<and> (wf_rooms s \<longrightarrow>
        (\<forall>q. pending_candidates (snd (getIceCandidates R q s)) R p p = pending_candidates s R p p))"
proof -
  have own: "mailbox_of (snd (getIceCandidates R p s)) R p = mailbox_of s R p"
  proof (cases "map_of s R")
    case None
    then show ?thesis by (simp add: getIceCandidates_def)
  next
    case (Some room)
    show ?thesis
      by (simp add: getIceCandidates_room[OF Some] mailbox_of_update drain_own_untouched)
         (simp add: mailbox_of_def Some)
  qed
  have none: "(\<forall>res. fst (getOffers R p s) = Inr res \<longrightarrow> entries_from p res = [])
       \<and> (\<forall>res. fst (getAnswers R p s) = Inr res \<longrightarrow> entries_from p res = [])
       \<and> (\<forall>res. fst (getIceCandidates R p s) = Inr res \<longrightarrow> entries_from p res = [])"
  proof (cases "map_of s R")
    case None
    then show ?thesis by (simp add: getOffers_def getAnswers_def getIceCandidates_def)
  next
    case (Some room)
    show ?thesis
      by (simp add: getOffers_room[OF Some] getAnswers_room[OF Some]
          getIceCandidates_room[OF Some] drain_result entries_from_excluded)
  qed
  have "pending_candidates (snd (getIceCandidates R q s)) R p p = pending_candidates s R p p"
    if "wf_rooms s" for q
  proof (cases "q = p")
    case True
    then show ?thesis using own by (simp add: pending_candidates_def)
  next
    case False
    then show ?thesis using getIceCandidates_other_queue[OF that, of p q] by simp
  qed
  with own none show ?thesis by blast
qed

theorem self_addressed_never_delivered_witness:
  "fst (getOffers ''r'' ''a'' self_addressed) = Inr []
   \<and> fst (getIceCandidates ''r'' ''a'' self_addressed) = Inr []
   \<and> pending_candidates (snd (getIceCandidates ''r'' ''a'' self_addressed)) ''r'' ''a'' ''a''
       = [''c1'']
   \<and> pending_candidates (snd (getIceCandidates ''r'' ''b'' self_addressed)) ''r'' ''a'' ''a''
       = [''c1'']"
proof -
  have wf: "wf_rooms self_addressed" by code_simp
  have p: "pending_candidates self_addressed ''r'' ''a'' ''a'' = [''c1'']" by code_simp
  have o: "fst (getOffers ''r'' ''a'' self_addressed) = Inr []" by code_simp
  have r: "fst (getIceCandidates ''r'' ''a'' self_addressed) = Inr []" by code_simp
  from self_addressed_never_delivered[of "''r''" "''a''" self_addressed] wf p o r
  show ?thesis by (simp add: pending_candidates_def)
qed

end
